theory Spec2Isabelle
  imports
    Main
    "HOL-Library.Word"
    "HOL-Library.Char_ord"
    "HOL-Library.List_Lexorder"
    "HOL-Library.Multiset"
begin

unbundle bit_operations_syntax

section \<open>Job reservation in datajoint/jobs.py\<close>

text \<open>
  The module has three parts: \<^verbatim>\<open>key_hash\<close>, which turns the primary key of a job into a
  32 character token; \<^verbatim>\<open>JobRelation\<close>, whose methods \<^verbatim>\<open>reserve\<close>, \<^verbatim>\<open>complete\<close> and
  \<^verbatim>\<open>error\<close> insert, delete and replace rows of the table \<^verbatim>\<open>~jobs\<close>; and \<^verbatim>\<open>JobManager\<close>,
  a dictionary of \<^verbatim>\<open>JobRelation\<close> objects, one for each database, filled on demand.

  Python dictionaries are association lists in insertion order with distinct field names,
  exceptions are the left summand of a sum type, the rows of the table are a map from the
  primary key to a record, and everything a call reads from outside the program (host name,
  process id, clock, the health of the database server) is an explicit argument.
\<close>

subsection \<open>hashlib.md5\<close>

text \<open>
  \<^verbatim>\<open>hashlib\<close> is the standard library's; the digest below is MD5 as RFC 1321 defines it:
  the message is padded to a multiple of 64 bytes, each block of sixteen little-endian 32-bit
  words goes through 64 rounds, and the four state words are written out little-endian.
\<close>

type_synonym byte = "8 word"
type_synonym u32 = "32 word"

definition md5_shifts :: "nat list" where
  "md5_shifts =
     [7, 12, 17, 22, 7, 12, 17, 22, 7, 12, 17, 22, 7, 12, 17, 22,
      5, 9, 14, 20, 5, 9, 14, 20, 5, 9, 14, 20, 5, 9, 14, 20,
      4, 11, 16, 23, 4, 11, 16, 23, 4, 11, 16, 23, 4, 11, 16, 23,
      6, 10, 15, 21, 6, 10, 15, 21, 6, 10, 15, 21, 6, 10, 15, 21]"

definition md5_sines :: "u32 list" where
  "md5_sines =
     [0xd76aa478, 0xe8c7b756, 0x242070db, 0xc1bdceee,
      0xf57c0faf, 0x4787c62a, 0xa8304613, 0xfd469501,
      0x698098d8, 0x8b44f7af, 0xffff5bb1, 0x895cd7be,
      0x6b901122, 0xfd987193, 0xa679438e, 0x49b40821,
      0xf61e2562, 0xc040b340, 0x265e5a51, 0xe9b6c7aa,
      0xd62f105d, 0x02441453, 0xd8a1e681, 0xe7d3fbc8,
      0x21e1cde6, 0xc33707d6, 0xf4d50d87, 0x455a14ed,
      0xa9e3e905, 0xfcefa3f8, 0x676f02d9, 0x8d2a4c8a,
      0xfffa3942, 0x8771f681, 0x6d9d6122, 0xfde5380c,
      0xa4beea44, 0x4bdecfa9, 0xf6bb4b60, 0xbebfbc70,
      0x289b7ec6, 0xeaa127fa, 0xd4ef3085, 0x04881d05,
      0xd9d4d039, 0xe6db99e5, 0x1fa27cf8, 0xc4ac5665,
      0xf4292244, 0x432aff97, 0xab9423a7, 0xfc93a039,
      0x655b59c3, 0x8f0ccc92, 0xffeff47d, 0x85845dd1,
      0x6fa87e4f, 0xfe2ce6e0, 0xa3014314, 0x4e0811a1,
      0xf7537e82, 0xbd3af235, 0x2ad7d2bb, 0xeb86d391]"

definition rotl32 :: "nat \<Rightarrow> u32 \<Rightarrow> u32" where
  "rotl32 n w = push_bit n w OR drop_bit (32 - n) w"

definition md5_mix :: "nat \<Rightarrow> u32 \<Rightarrow> u32 \<Rightarrow> u32 \<Rightarrow> u32" where
  "md5_mix i b c d =
     (if i < 16 then (b AND c) OR (NOT b AND d)
      else if i < 32 then (d AND b) OR (NOT d AND c)
      else if i < 48 then b XOR c XOR d
      else c XOR (b OR NOT d))"

definition md5_index :: "nat \<Rightarrow> nat" where
  "md5_index i =
     (if i < 16 then i
      else if i < 32 then (5 * i + 1) mod 16
      else if i < 48 then (3 * i + 5) mod 16
      else (7 * i) mod 16)"

type_synonym md5_state = "u32 \<times> u32 \<times> u32 \<times> u32"

definition md5_round :: "u32 list \<Rightarrow> md5_state \<Rightarrow> nat \<Rightarrow> md5_state" where
  "md5_round m st i =
     (case st of (a, b, c, d) \<Rightarrow>
        (d,
         b + rotl32 (md5_shifts ! i) (md5_mix i b c d + a + md5_sines ! i + m ! md5_index i),
         b,
         c))"

fun le_word :: "byte list \<Rightarrow> u32" where
  "le_word [] = 0"
| "le_word (x # xs) = ucast x OR push_bit 8 (le_word xs)"

definition le_bytes :: "nat \<Rightarrow> 'a::len word \<Rightarrow> byte list" where
  "le_bytes n w = map (\<lambda>j. ucast (drop_bit (8 * j) w)) [0..<n]"

definition md5_block :: "md5_state \<Rightarrow> byte list \<Rightarrow> md5_state" where
  "md5_block st blk =
     (let m = map (\<lambda>j. le_word (take 4 (drop (4 * j) blk))) [0..<16] in
      case (st, foldl (md5_round m) st [0..<64]) of
        ((a0, b0, c0, d0), (a, b, c, d)) \<Rightarrow> (a0 + a, b0 + b, c0 + c, d0 + d))"

definition md5_pad :: "byte list \<Rightarrow> byte list" where
  "md5_pad msg =
     msg @ [0x80] @ replicate ((119 - length msg mod 64) mod 64) 0
       @ le_bytes 8 (of_nat (8 * length msg) :: 64 word)"

definition md5_init :: md5_state where
  "md5_init = (0x67452301, 0xefcdab89, 0x98badcfe, 0x10325476)"

definition md5_digest :: "byte list \<Rightarrow> byte list" where
  "md5_digest msg =
     (let p = md5_pad msg in
      case foldl md5_block md5_init
             (map (\<lambda>k. take 64 (drop (64 * k) p)) [0..<length p div 64]) of
        (a, b, c, d) \<Rightarrow> concat (map (le_bytes 4) [a, b, c, d]))"

definition hex_digit :: "nat \<Rightarrow> char" where
  "hex_digit n = ''0123456789abcdef'' ! n"

definition hex_byte :: "byte \<Rightarrow> string" where
  "hex_byte b = [hex_digit (unat b div 16), hex_digit (unat b mod 16)]"

text \<open>
  A hash object is the sequence of bytes fed to it so far: \<^verbatim>\<open>update\<close> appends, and
  \<^verbatim>\<open>hexdigest\<close> is the digest of everything fed, in lowercase hexadecimal.
\<close>

type_synonym md5_object = "byte list"

definition md5_new :: md5_object where
  "md5_new = []"

definition update :: "md5_object \<Rightarrow> byte list \<Rightarrow> md5_object" where
  "update hashed data = hashed @ data"

definition hexdigest :: "md5_object \<Rightarrow> string" where
  "hexdigest hashed = concat (map hex_byte (md5_digest hashed))"

subsection \<open>Python values, str and encode\<close>

text \<open>
  The values of a primary key are \<^verbatim>\<open>None\<close>, booleans, integers and strings. A string is a
  list of code points below 256, compared as Python compares strings: code point by code
  point, a proper prefix first.
\<close>

datatype pyval = PyNone | PyBool bool | PyInt int | PyStr string

definition digit_char :: "nat \<Rightarrow> char" where
  "digit_char d = char_of (48 + d)"

fun str_nat :: "nat \<Rightarrow> string" where
  "str_nat n = (if n < 10 then [digit_char n] else str_nat (n div 10) @ [digit_char (n mod 10)])"

definition str_int :: "int \<Rightarrow> string" where
  "str_int i = (if i < 0 then CHR ''-'' # str_nat (nat (- i)) else str_nat (nat i))"

fun py_str :: "pyval \<Rightarrow> string" where
  "py_str PyNone = ''None''"
| "py_str (PyBool b) = (if b then ''True'' else ''False'')"
| "py_str (PyInt i) = str_int i"
| "py_str (PyStr s) = s"

text \<open>\<^verbatim>\<open>str.encode()\<close> is UTF-8: one byte below 128, two bytes from 128 to 255.\<close>

definition utf8_char :: "char \<Rightarrow> byte list" where
  "utf8_char c =
     (let n = of_char c :: nat in
      if n < 128 then [of_nat n] else [of_nat (192 + n div 64), of_nat (128 + n mod 64)])"

definition encode :: "string \<Rightarrow> byte list" where
  "encode s = concat (map utf8_char s)"

subsection \<open>key_hash\<close>

text \<open>
  \<^verbatim>\<open>
  def key_hash(key):
      hashed = hashlib.md5()
      for k, v in sorted(key.items()):
          hashed.update(str(v).encode())
      return hashed.hexdigest()
  \<close>
  \<^verbatim>\<open>key.items()\<close> lists the entries in insertion order. \<^verbatim>\<open>sorted\<close> compares the pairs; the
  field names of a dictionary are distinct, so the comparison is decided by the field name
  and the (stable) sort is a sort on the first component.
\<close>

type_synonym key = "(string \<times> pyval) list"

definition sorted_items :: "key \<Rightarrow> (string \<times> pyval) list" where
  "sorted_items key = sort_key fst key"

definition key_hash :: "key \<Rightarrow> string" where
  "key_hash key =
     hexdigest (foldl (\<lambda>hashed (k, v). update hashed (encode (py_str v))) md5_new (sorted_items key))"

text \<open>
  The bytes that reach the digest, written without the loop: the encoded strings of the values,
  in the order of their field names, one after the other.
\<close>

definition key_payload :: "key \<Rightarrow> byte list" where
  "key_payload key = concat (map (\<lambda>v. encode (py_str v)) (map snd (sorted_items key)))"

subsection \<open>The table ~jobs\<close>

text \<open>
  The declaration in \<^verbatim>\<open>JobRelation.__init__\<close> gives the columns: the primary key is
  \<^verbatim>\<open>(table_name, key_hash)\<close>, then come \<^verbatim>\<open>status\<close>, an enumeration without default,
  \<^verbatim>\<open>key=null\<close>, \<^verbatim>\<open>error_message=""\<close>, \<^verbatim>\<open>error_stack=null\<close>, \<^verbatim>\<open>host=""\<close>, \<^verbatim>\<open>pid=0\<close> and
  \<^verbatim>\<open>timestamp=CURRENT_TIMESTAMP\<close>. A missing row means that the job is available.
  The declared widths of the character columns are not part of the model.
\<close>

datatype status = Reserved | Error | Ignore

record job =
  table_name :: string
  key_hash_col :: string
  status :: status
  key :: "byte list option"
  error_message :: string
  error_stack :: "byte list option"
  host :: string
  pid :: nat
  timestamp :: nat

type_synonym jobs_table = "string \<times> string \<rightharpoonup> job"

definition primary_key :: "job \<Rightarrow> string \<times> string" where
  "primary_key row = (table_name row, key_hash_col row)"

text \<open>
  What a call reads from outside the program: \<^verbatim>\<open>os.uname().nodename\<close>, \<^verbatim>\<open>os.getpid()\<close>, the
  server's clock, and whether the server fails this call for a reason that has nothing to do
  with the rows (section 7 of the specification: connectivity, permission, schema mismatch).
  A mismatch of the schema comes in two kinds: the table the server has may lack what the
  statement names (\<open>SchemaMismatch\<close>), or it may carry a constraint that the declaration
  does not have, a foreign key or a column that must not be null, which the statement violates
  (\<open>ConstraintViolation\<close>).
\<close>

datatype failure = Connectivity | Permission | SchemaMismatch | ConstraintViolation

datatype py_error = IntegrityError | StorageUnavailable failure | KeyError

text \<open>
  The classes of \<^verbatim>\<open>pymysql.err\<close>: \<^verbatim>\<open>isinstance(err, pymysql.err.IntegrityError)\<close>. The library
  raises this class for a duplicate key and also for the other constraints a server checks
  (a null in a column that forbids it, a foreign key), so the error of a violated constraint
  is of the class although no row with the same key exists.
\<close>

fun integrity_error :: "py_error \<Rightarrow> bool" where
  "integrity_error IntegrityError = True"
| "integrity_error (StorageUnavailable f) = (f = ConstraintViolation)"
| "integrity_error KeyError = False"

record env =
  nodename :: string
  getpid :: nat
  current_timestamp :: nat
  fault :: "failure option"

text \<open>
  Modelled from the spec: \<^verbatim>\<open>BaseRelation.insert1\<close> of base_relation.py, which is not among
  the sources. Sections 4.2 and 6: the atomic conditional insert fails distinctly (with
  \<^verbatim>\<open>pymysql.err.IntegrityError\<close>) if a row with the same composite key exists, and
  insert-or-replace (\<^verbatim>\<open>replace=True\<close>) atomically removes any row with the same key and
  inserts the new one. Section 7: any other failure of the medium is raised whatever the rows
  are. A failed call leaves the table as it was.
\<close>

definition insert1 :: "failure option \<Rightarrow> jobs_table \<Rightarrow> job \<Rightarrow> bool \<Rightarrow> py_error + jobs_table" where
  "insert1 flt self row replace =
     (case flt of
        Some f \<Rightarrow> Inl (StorageUnavailable f)
      | None \<Rightarrow>
          if replace then Inr (self(primary_key row \<mapsto> row))
          else if primary_key row \<in> dom self then Inl IntegrityError
          else Inr (self(primary_key row \<mapsto> row)))"

text \<open>
  Modelled from the spec: the restriction \<^verbatim>\<open>self & job_key\<close> followed by
  \<^verbatim>\<open>BaseRelation.delete_quick\<close>, both of base_relation.py. Sections 4.2 and 6: the
  unconditional delete by composite key removes the matching row if there is one, and
  deleting a row that does not exist is not an error.
\<close>

definition delete_quick :: "failure option \<Rightarrow> jobs_table \<Rightarrow> string \<times> string \<Rightarrow> py_error + jobs_table" where
  "delete_quick flt self job_key =
     (case flt of
        Some f \<Rightarrow> Inl (StorageUnavailable f)
      | None \<Rightarrow> Inr (self(job_key := None)))"

subsection \<open>JobRelation.reserve, complete and error\<close>

text \<open>
  \<^verbatim>\<open>
  def reserve(self, table_name, key):
      try:
          job_key = dict(table_name=table_name, key_hash=key_hash(key),
                         status='reserved', host=os.uname().nodename, pid=os.getpid())
          self.insert1(job_key)
      except pymysql.err.IntegrityError:
          return False
      else:
          return True
  \<close>
  The columns that the dictionary leaves out take their declared defaults. The \<^verbatim>\<open>except\<close>
  clause catches by class: every error of the class \<^verbatim>\<open>IntegrityError\<close> becomes \<^verbatim>\<open>False\<close>,
  whatever made the server raise it, and every other error leaves the method.
\<close>

definition reserve_job_key :: "env \<Rightarrow> string \<Rightarrow> key \<Rightarrow> job" where
  "reserve_job_key e tname k =
     \<lparr>table_name = tname, key_hash_col = key_hash k, status = Reserved,
      key = None, error_message = [], error_stack = None,
      host = nodename e, pid = getpid e, timestamp = current_timestamp e\<rparr>"

definition reserve :: "env \<Rightarrow> jobs_table \<Rightarrow> string \<Rightarrow> key \<Rightarrow> py_error + bool \<times> jobs_table" where
  "reserve e self tname k =
     (case insert1 (fault e) self (reserve_job_key e tname k) False of
        Inl err \<Rightarrow> if integrity_error err then Inr (False, self) else Inl err
      | Inr self' \<Rightarrow> Inr (True, self'))"

text \<open>
  \<^verbatim>\<open>
  def complete(self, table_name, key):
      job_key = dict(table_name=table_name, key_hash=key_hash(key))
      (self & job_key).delete_quick()
  \<close>
\<close>

definition complete :: "env \<Rightarrow> jobs_table \<Rightarrow> string \<Rightarrow> key \<Rightarrow> py_error + jobs_table" where
  "complete e self tname k = delete_quick (fault e) self (tname, key_hash k)"

text \<open>
  \<^verbatim>\<open>
  def error(self, table_name, key, error_message):
      job_key = dict(table_name=table_name, key_hash=key_hash(key))
      self.insert1(
          dict(job_key, status="error", host=os.uname().nodename, pid=os.getpid(),
               error_message=error_message), replace=True)
  \<close>
  The method has three parameters. The dictionary it inserts has no entry for the columns
  \<^verbatim>\<open>key\<close> and \<^verbatim>\<open>error_stack\<close>, which therefore take their default, null.
\<close>

definition error_job :: "env \<Rightarrow> string \<Rightarrow> key \<Rightarrow> string \<Rightarrow> job" where
  "error_job e tname k message =
     \<lparr>table_name = tname, key_hash_col = key_hash k, status = Error,
      key = None, error_message = message, error_stack = None,
      host = nodename e, pid = getpid e, timestamp = current_timestamp e\<rparr>"

definition error :: "env \<Rightarrow> jobs_table \<Rightarrow> string \<Rightarrow> key \<Rightarrow> string \<Rightarrow> py_error + jobs_table" where
  "error e self tname k message = insert1 (fault e) self (error_job e tname k message) True"

subsection \<open>Sequences of calls on one table\<close>

text \<open>
  The workers share the table and nothing else, and every call is one atomic operation of the
  server, so what any number of processes do is a sequence of calls, each with the
  environment of the process that makes it. A call that raises leaves the table unchanged.
\<close>

datatype call = Reserve string key | Complete string key | ErrorCall string key string

datatype outcome = Raised py_error | Returned | Answered bool

fun target :: "call \<Rightarrow> string \<times> string" where
  "target (Reserve tname k) = (tname, key_hash k)"
| "target (Complete tname k) = (tname, key_hash k)"
| "target (ErrorCall tname k message) = (tname, key_hash k)"

fun step :: "jobs_table \<Rightarrow> env \<times> call \<Rightarrow> outcome \<times> jobs_table" where
  "step self (e, Reserve tname k) =
     (case reserve e self tname k of
        Inl err \<Rightarrow> (Raised err, self)
      | Inr (b, self') \<Rightarrow> (Answered b, self'))"
| "step self (e, Complete tname k) =
     (case complete e self tname k of
        Inl err \<Rightarrow> (Raised err, self)
      | Inr self' \<Rightarrow> (Returned, self'))"
| "step self (e, ErrorCall tname k message) =
     (case error e self tname k message of
        Inl err \<Rightarrow> (Raised err, self)
      | Inr self' \<Rightarrow> (Returned, self'))"

fun run :: "jobs_table \<Rightarrow> (env \<times> call) list \<Rightarrow> outcome list" where
  "run self [] = []"
| "run self (c # cs) = fst (step self c) # run (snd (step self c)) cs"

text \<open>Call number \<open>i\<close> is a \<^verbatim>\<open>reserve\<close> of the pair \<open>p\<close> that returned \<^verbatim>\<open>True\<close>.\<close>

definition reserve_won :: "string \<times> string \<Rightarrow> (env \<times> call) list \<Rightarrow> outcome list \<Rightarrow> nat \<Rightarrow> bool" where
  "reserve_won p cs rs i =
     ((case snd (cs ! i) of Reserve tname k \<Rightarrow> (tname, key_hash k) = p | _ \<Rightarrow> False)
      \<and> rs ! i = Answered True)"

text \<open>Call number \<open>m\<close> is a \<^verbatim>\<open>complete\<close> of the pair \<open>p\<close> that returned.\<close>

definition complete_done :: "string \<times> string \<Rightarrow> (env \<times> call) list \<Rightarrow> outcome list \<Rightarrow> nat \<Rightarrow> bool" where
  "complete_done p cs rs m =
     ((case snd (cs ! m) of Complete tname k \<Rightarrow> (tname, key_hash k) = p | _ \<Rightarrow> False)
      \<and> rs ! m = Returned)"

subsection \<open>JobRelation.__init__ and JobManager\<close>

text \<open>
  Objects live in a heap, a list in which the address of an object is its position, so that
  "the same object" is "the same address". A \<^verbatim>\<open>JobRelation\<close> holds its database and its
  connection; its \<^verbatim>\<open>_definition\<close> is the declaration quoted above with the name of the
  database filled in. The world of a process is its heap together with the set of databases
  in which the server has the table \<^verbatim>\<open>~jobs\<close> declared.
\<close>

record 'c job_relation =
  database :: "string option"
  relation_connection :: 'c

record 'c world =
  objects :: "'c job_relation list"
  declared :: "string option set"

datatype 'c init_arg = Copy "'c job_relation" | Connection 'c

text \<open>
  \<^verbatim>\<open>
  def __init__(self, arg, database=None):
      super().__init__()
      if isinstance(arg, JobRelation):
          self.database = arg.database
          self._connection = arg._connection
          self._definition = arg._definition
          return
      self.database = database
      self._connection = arg
      self._definition = """...""".format(database=database)
      if not self.is_declared:
          self.declare()
  \<close>
  Modelled from the spec: \<^verbatim>\<open>is_declared\<close> and \<^verbatim>\<open>declare\<close> of base_relation.py. Section 4.3:
  constructing a store provisions its backing storage if it is not already present. Both talk
  to the server, so a failure of the medium is raised by the constructor, and then there is no
  new object.
\<close>

definition JobRelation_init ::
    "failure option \<Rightarrow> 'c world \<Rightarrow> 'c init_arg \<Rightarrow> string option \<Rightarrow> py_error + nat \<times> 'c world" where
  "JobRelation_init flt w arg db =
     (case arg of
        Copy other \<Rightarrow>
          Inr (length (objects w),
               w\<lparr>objects := objects w @
                    [\<lparr>database = database other, relation_connection = relation_connection other\<rparr>]\<rparr>)
      | Connection c \<Rightarrow>
          (case flt of
             Some f \<Rightarrow> Inl (StorageUnavailable f)
           | None \<Rightarrow>
               Inr (length (objects w),
                    w\<lparr>objects := objects w @ [\<lparr>database = db, relation_connection = c\<rparr>],
                      declared := (if db \<notin> declared w then insert db (declared w)
                                   else declared w)\<rparr>)))"

text \<open>
  \<^verbatim>\<open>
  class JobManager:
      def __init__(self, connection):
          self.connection = connection
          self._jobs = {}

      def __getitem__(self, database):
          if database not in self._jobs:
              self._jobs[database] = JobRelation(self.connection, database)
          return self._jobs[database]
  \<close>
\<close>

record 'c job_manager =
  connection :: 'c
  jobs :: "string \<rightharpoonup> nat"

definition JobManager_init :: "'c \<Rightarrow> 'c job_manager" where
  "JobManager_init c = \<lparr>connection = c, jobs = Map.empty\<rparr>"

definition getitem ::
    "failure option \<Rightarrow> 'c job_manager \<times> 'c world \<Rightarrow> string
       \<Rightarrow> py_error + nat \<times> 'c job_manager \<times> 'c world" where
  "getitem flt st db =
     (case st of (self, w) \<Rightarrow>
        (case (if db \<notin> dom (jobs self)
               then (case JobRelation_init flt w (Connection (connection self)) (Some db) of
                       Inl err \<Rightarrow> Inl err
                     | Inr (ref, w') \<Rightarrow> Inr (self\<lparr>jobs := (jobs self)(db \<mapsto> ref)\<rparr>, w'))
               else Inr (self, w)) of
           Inl err \<Rightarrow> Inl err
         | Inr (self', w') \<Rightarrow>
             (case jobs self' db of
                None \<Rightarrow> Inl KeyError
              | Some ref \<Rightarrow> Inr (ref, self', w'))))"

text \<open>
  A process asks its manager for one database after the other; a request that raises leaves
  the manager and the heap as they were.
\<close>

fun request :: "'c job_manager \<times> 'c world \<Rightarrow> failure option \<times> string
                  \<Rightarrow> (py_error + nat) \<times> 'c job_manager \<times> 'c world" where
  "request st (flt, db) =
     (case getitem flt st db of
        Inl err \<Rightarrow> (Inl err, st)
      | Inr (ref, st') \<Rightarrow> (Inr ref, st'))"

fun requests :: "'c job_manager \<times> 'c world \<Rightarrow> (failure option \<times> string) list
                   \<Rightarrow> (py_error + nat) list \<times> 'c job_manager \<times> 'c world" where
  "requests st [] = ([], st)"
| "requests st (r # rs) =
     (case request st r of
        (x, st') \<Rightarrow> (case requests st' rs of (xs, st'') \<Rightarrow> (x # xs, st'')))"

text \<open>
  The cache of a manager is consistent with the heap when every entry is the address of a
  \<^verbatim>\<open>JobRelation\<close> for that database on the manager's connection. The objects constructed
  between two worlds are those at the addresses the first world does not have.
\<close>

definition cache_consistent :: "'c job_manager \<times> 'c world \<Rightarrow> bool" where
  "cache_consistent st =
     (\<forall>db ref. jobs (fst st) db = Some ref \<longrightarrow>
        ref < length (objects (snd st)) \<and>
        objects (snd st) ! ref = \<lparr>database = Some db, relation_connection = connection (fst st)\<rparr>)"

definition constructed :: "'c world \<Rightarrow> 'c world \<Rightarrow> 'c job_relation list" where
  "constructed w w' = drop (length (objects w)) (objects w')"

subsection \<open>Example values\<close>

text \<open>
  The work unit \<^verbatim>\<open>"T"\<close> and the key \<^verbatim>\<open>{id: 1}\<close> of section 8 of the specification, two workers
  on different hosts, a worker whose connection is down, a worker whose server has a
  constraint on the table that the declaration lacks, and a process with an empty heap.
\<close>

definition key_id1 :: key where
  "key_id1 = [(''id'', PyInt 1)]"

definition worker_a :: env where
  "worker_a = \<lparr>nodename = ''alpha'', getpid = 4711, current_timestamp = 100, fault = None\<rparr>"

definition worker_b :: env where
  "worker_b = \<lparr>nodename = ''beta'', getpid = 17, current_timestamp = 105, fault = None\<rparr>"

definition worker_offline :: env where
  "worker_offline =
     \<lparr>nodename = ''gamma'', getpid = 23, current_timestamp = 110, fault = Some Connectivity\<rparr>"

definition worker_constrained :: env where
  "worker_constrained =
     \<lparr>nodename = ''delta'', getpid = 31, current_timestamp = 120,
      fault = Some ConstraintViolation\<rparr>"

definition fresh_world :: "nat world" where
  "fresh_world = \<lparr>objects = [], declared = {}\<rparr>"

section \<open>Properties of key_hash\<close>

lemma foldl_update_concat:
  "foldl (\<lambda>hashed (k, v). update hashed (f v)) h xs = h @ concat (map (\<lambda>v. f v) (map snd xs))"
  by (induction xs arbitrary: h) (auto simp: update_def)

lemma key_hash_payload: "key_hash k = hexdigest (key_payload k)"
  by (simp add: key_hash_def key_payload_def foldl_update_concat md5_new_def)

subsection \<open>The digest on the key of section 8\<close>

text \<open>
  The only byte that \<^verbatim>\<open>{id: 1}\<close> feeds to the digest is the character \<^verbatim>\<open>1\<close>, and the MD5 of
  that message is \<^verbatim>\<open>c4ca4238a0b923820dcc509a6f75849b\<close>. The computation goes through the
  padding, the sixteen words of the single block and the 64 rounds, one step at a time.
\<close>

lemma upt_from_0: "Suc 0 < n \<Longrightarrow> [0..<n] = 0 # Suc 0 # [2..<n]"
  by (simp add: upt_conv_Cons numeral_2_eq_2)

lemma replicate_numeral: "replicate (numeral n) x = x # replicate (pred_numeral n) x"
  by (simp add: numeral_eq_Suc)

lemma md5_pad_1:
  "md5_pad [0x31] =
     [0x31, 0x80, 0, 0, 0, 0, 0, 0, 0, 0, 0, 0, 0, 0, 0, 0,
      0, 0, 0, 0, 0, 0, 0, 0, 0, 0, 0, 0, 0, 0, 0, 0,
      0, 0, 0, 0, 0, 0, 0, 0, 0, 0, 0, 0, 0, 0, 0, 0,
      0, 0, 0, 0, 0, 0, 0, 0, 8, 0, 0, 0, 0, 0, 0, 0]"
  by (simp add: md5_pad_def le_bytes_def upt_from_0 replicate_numeral)

lemma md5_words_1:
  "map (\<lambda>j. le_word (take 4 (drop (4 * j)
     [0x31, 0x80, 0, 0, 0, 0, 0, 0, 0, 0, 0, 0, 0, 0, 0, 0,
      0, 0, 0, 0, 0, 0, 0, 0, 0, 0, 0, 0, 0, 0, 0, 0,
      0, 0, 0, 0, 0, 0, 0, 0, 0, 0, 0, 0, 0, 0, 0, 0,
      0, 0, 0, 0, 0, 0, 0, 0, 8, 0, 0, 0, 0, 0, 0, 0]))) [0..<16]
   = [0x8031, 0, 0, 0, 0, 0, 0, 0, 0, 0, 0, 0, 0, 0, 8, 0]"
  by (simp add: upt_from_0)

lemma md5_rounds_1:
  "foldl (md5_round [0x8031, 0, 0, 0, 0, 0, 0, 0, 0, 0, 0, 0, 0, 0, 8, 0]) md5_init [0..<64]
   = (3506284483, 2455113239, 26603279, 2337415417)"
  by (simp add: upt_from_0 md5_round_def md5_init_def md5_shifts_def md5_sines_def md5_mix_def
        md5_index_def rotl32_def)

lemma md5_block_1:
  "md5_block md5_init (md5_pad [0x31]) = (943901380, 2183379360, 2588986381, 2609149295)"
  unfolding md5_block_def md5_pad_1 md5_words_1 Let_def md5_rounds_1
  by (simp add: md5_init_def)

lemma md5_digest_1:
  "md5_digest [0x31] = [196, 202, 66, 56, 160, 185, 35, 130, 13, 204, 80, 154, 111, 117, 132, 155]"
proof -
  have b: "map (\<lambda>k. take 64 (drop (64 * k) (md5_pad [0x31]))) [0..<length (md5_pad [0x31]) div 64]
             = [md5_pad [0x31]]"
    by (simp add: md5_pad_1)
  show ?thesis
    unfolding md5_digest_def Let_def b
    by (simp add: md5_block_1 le_bytes_def upt_from_0)
qed

lemma key_payload_id1: "key_payload key_id1 = [0x31]"
  by (simp add: key_payload_def key_id1_def sorted_items_def str_int_def encode_def
        utf8_char_def digit_char_def)

lemma key_hash_id1: "key_hash key_id1 = ''c4ca4238a0b923820dcc509a6f75849b''"
  by (simp add: key_hash_payload key_payload_id1 hexdigest_def md5_digest_1 hex_byte_def
        hex_digit_def)

subsection \<open>The digests of two more messages\<close>

text \<open>
  A message of fewer than 56 bytes is padded to one block. The messages \<^verbatim>\<open>12\<close> and \<^verbatim>\<open>21\<close>
  have the digests \<^verbatim>\<open>c20ad4d76fe97759aa27a0c99bff6710\<close> and
  \<^verbatim>\<open>3c59dc048e8850243be8079a5c74d079\<close>, which differ.
\<close>

lemma pad_zeros: "n < 56 \<Longrightarrow> (119 - n mod 64) mod 64 = 55 - (n::nat)"
proof -
  assume a: "n < 56"
  then have m: "n mod 64 = n" by simp
  from a have "119 - n = 64 + (55 - n)" by linarith
  then have "(119 - n) mod 64 = (55 - n) mod 64" by (simp only: mod_add_self1)
  also have "\<dots> = 55 - n" by (rule mod_less) linarith
  finally show ?thesis by (simp only: m)
qed

lemma md5_pad_length: "length msg < 56 \<Longrightarrow> length (md5_pad msg) = 64"
proof -
  assume a: "length msg < 56"
  have "length (md5_pad msg) = length msg + 1 + (119 - length msg mod 64) mod 64 + 8"
    by (simp add: md5_pad_def le_bytes_def)
  also have "\<dots> = length msg + 1 + (55 - length msg) + 8"
    by (simp only: pad_zeros [OF a])
  also have "\<dots> = 64" using a by linarith
  finally show ?thesis .
qed

lemma md5_digest_single_block:
  assumes "length msg < 56"
  shows "md5_digest msg =
           (case md5_block md5_init (md5_pad msg) of
              (a, b, c, d) \<Rightarrow> concat (map (le_bytes 4) [a, b, c, d]))"
proof -
  have l: "length (md5_pad msg) = 64" using assms by (rule md5_pad_length)
  have "map (\<lambda>k. take 64 (drop (64 * k) (md5_pad msg))) [0..<length (md5_pad msg) div 64]
          = [md5_pad msg]"
    by (simp add: l)
  then show ?thesis by (simp add: md5_digest_def Let_def)
qed

lemma md5_pad_12:
  "md5_pad [0x31, 0x32] = [0x31, 0x32, 0x80] @ replicate 53 0 @ [16, 0, 0, 0, 0, 0, 0, 0]"
  by (simp add: md5_pad_def le_bytes_def upt_from_0)

lemma md5_words_12:
  "map (\<lambda>j. le_word (take 4 (drop (4 * j) (md5_pad [0x31, 0x32])))) [0..<16]
   = [0x803231, 0, 0, 0, 0, 0, 0, 0, 0, 0, 0, 0, 0, 0, 16, 0]"
  unfolding md5_pad_12 by (simp add: upt_from_0 replicate_numeral)

lemma md5_rounds_12:
  "foldl (md5_round [0x803231, 0, 0, 0, 0, 0, 0, 0, 0, 0, 0, 0, 0, 0, 16, 0]) md5_init [0..<64]
   = (1888413633, 1772764646, 820333228, 3517221)"
  by (simp add: upt_from_0 md5_round_def md5_init_def md5_shifts_def md5_sines_def md5_mix_def
        md5_index_def rotl32_def)

lemma md5_digest_12:
  "md5_digest [0x31, 0x32]
   = [194, 10, 212, 215, 111, 233, 119, 89, 170, 39, 160, 201, 155, 255, 103, 16]"
proof -
  have "md5_block md5_init (md5_pad [0x31, 0x32])
          = (3620997826, 1501030767, 3382716330, 275251099)"
    unfolding md5_block_def md5_words_12 Let_def md5_rounds_12
    by (simp add: md5_init_def)
  then show ?thesis
    by (simp add: md5_digest_single_block le_bytes_def upt_from_0)
qed

lemma md5_pad_21:
  "md5_pad [0x32, 0x31] = [0x32, 0x31, 0x80] @ replicate 53 0 @ [16, 0, 0, 0, 0, 0, 0, 0]"
  by (simp add: md5_pad_def le_bytes_def upt_from_0)

lemma md5_words_21:
  "map (\<lambda>j. le_word (take 4 (drop (4 * j) (md5_pad [0x32, 0x31])))) [0..<16]
   = [0x803132, 0, 0, 0, 0, 0, 0, 0, 0, 0, 0, 0, 0, 0, 16, 0]"
  unfolding md5_pad_21 by (simp add: upt_from_0 replicate_numeral)

lemma md5_rounds_21:
  "foldl (md5_round [0x803132, 0, 0, 0, 0, 0, 0, 0, 0, 0, 0, 0, 0, 0, 16, 0]) md5_init [0..<64]
   = (2643932731, 880991493, 21826365, 1771970534)"
  by (simp add: upt_from_0 md5_round_def md5_init_def md5_shifts_def md5_sines_def md5_mix_def
        md5_index_def rotl32_def)

lemma md5_digest_21:
  "md5_digest [0x32, 0x31]
   = [60, 89, 220, 4, 142, 136, 80, 36, 59, 232, 7, 154, 92, 116, 208, 121]"
proof -
  have "md5_block md5_init (md5_pad [0x32, 0x31])
          = (81549628, 609257614, 2584209467, 2043704412)"
    unfolding md5_block_def md5_words_21 Let_def md5_rounds_21
    by (simp add: md5_init_def)
  then show ?thesis
    by (simp add: md5_digest_single_block le_bytes_def upt_from_0)
qed

lemma md5_digest_12_21: "md5_digest [0x31, 0x32] \<noteq> md5_digest [0x32, 0x31]"
  by (simp add: md5_digest_12 md5_digest_21)

lemma key_payload_ac: "key_payload [(''a'', PyInt 1), (''c'', PyInt 2)] = [0x31, 0x32]"
  by (simp add: key_payload_def sorted_items_def str_int_def encode_def utf8_char_def
        digit_char_def)

lemma key_payload_db: "key_payload [(''d'', PyInt 1), (''b'', PyInt 2)] = [0x32, 0x31]"
  by (simp add: key_payload_def sorted_items_def str_int_def encode_def utf8_char_def
        digit_char_def)

text \<open>The hash always has the 32 characters of the column \<^verbatim>\<open>key_hash :char(32)\<close>.\<close>

lemma md5_digest_length: "length (md5_digest msg) = 16"
  by (simp add: md5_digest_def Let_def le_bytes_def upt_from_0 split: prod.splits)

lemma key_hash_length: "length (key_hash k) = 32"
proof -
  have "length (concat (map hex_byte bs)) = 2 * length bs" for bs
    by (induction bs) (simp_all add: hex_byte_def)
  then show ?thesis
    by (simp add: key_hash_payload hexdigest_def md5_digest_length)
qed

subsection \<open>The hexadecimal encoding loses nothing\<close>

lemma hex_digit_inj: "m < 16 \<Longrightarrow> n < 16 \<Longrightarrow> hex_digit m = hex_digit n \<Longrightarrow> m = n"
proof -
  assume a: "m < 16" "n < 16" "hex_digit m = hex_digit n"
  have d: "distinct ''0123456789abcdef''" by simp
  have l: "length ''0123456789abcdef'' = 16" by simp
  from a d l show ?thesis
    unfolding hex_digit_def by (metis nth_eq_iff_index_eq)
qed

lemma hex_byte_inj: "hex_byte a = hex_byte b \<Longrightarrow> a = b"
proof -
  assume "hex_byte a = hex_byte b"
  then have h: "hex_digit (unat a div 16) = hex_digit (unat b div 16)"
    and l: "hex_digit (unat a mod 16) = hex_digit (unat b mod 16)"
    by (simp_all add: hex_byte_def)
  have ba: "unat a < 256" and bb: "unat b < 256"
    using unsigned_less [of a] unsigned_less [of b] by simp_all
  from h ba bb have "unat a div 16 = unat b div 16"
    by (intro hex_digit_inj) simp_all
  moreover from l have "unat a mod 16 = unat b mod 16"
    by (intro hex_digit_inj) simp_all
  ultimately have "unat a = unat b"
    by (metis div_mult_mod_eq)
  then show ?thesis by (simp add: word_unat_eq_iff)
qed

lemma concat_hex_inj: "concat (map hex_byte xs) = concat (map hex_byte ys) \<Longrightarrow> xs = ys"
proof (induction xs arbitrary: ys)
  case Nil
  then show ?case by (cases ys) (simp_all add: hex_byte_def)
next
  case (Cons x xs)
  then show ?case
  proof (cases ys)
    case Nil
    with Cons.prems show ?thesis by (simp add: hex_byte_def)
  next
    case (Cons y ys')
    with Cons.prems
    have e: "hex_byte x @ concat (map hex_byte xs) = hex_byte y @ concat (map hex_byte ys')"
      by simp
    have "length (hex_byte x) = length (hex_byte y)" by (simp add: hex_byte_def)
    with e have "hex_byte x = hex_byte y" "concat (map hex_byte xs) = concat (map hex_byte ys')"
      by simp_all
    with Cons.IH Cons show ?thesis by (simp add: hex_byte_inj)
  qed
qed

lemma hexdigest_eq_iff: "hexdigest a = hexdigest b \<longleftrightarrow> md5_digest a = md5_digest b"
  by (auto simp: hexdigest_def dest: concat_hex_inj)

subsection \<open>Sorting forgets the insertion order\<close>

lemma filter_fst_distinct:
  "distinct (map fst xs) \<Longrightarrow> x \<in> set xs \<Longrightarrow> filter (\<lambda>y. fst x = fst y) xs = [x]"
proof (induction xs)
  case Nil
  then show ?case by simp
next
  case (Cons a xs)
  from Cons.prems have na: "fst a \<notin> fst ` set xs" and dx: "distinct (map fst xs)"
    by simp_all
  show ?case
  proof (cases "x = a")
    case True
    from na have "filter (\<lambda>y. fst a = fst y) xs = []"
      by (auto simp: filter_empty_conv)
    with True show ?thesis by simp
  next
    case False
    with Cons.prems have xs: "x \<in> set xs" by simp
    with na have "fst x \<noteq> fst a" by (metis imageI)
    with Cons.IH [OF dx xs] show ?thesis by simp
  qed
qed

lemma sorted_items_perm:
  assumes "distinct (map fst k)" "mset k' = mset k"
  shows "sorted_items k' = sorted_items k"
  unfolding sorted_items_def
proof (rule properties_for_sort_key)
  show "mset (sort_key fst k) = mset k'" using assms by simp
  show "sorted (map fst (sort_key fst k))" by simp
  fix x assume x: "x \<in> set (sort_key fst k)"
  have "mset (map fst k') = mset (map fst k)" using assms(2) by (metis mset_map)
  then have dk': "distinct (map fst k')" using assms(1) by (metis mset_eq_imp_distinct_iff)
  have "mset (map fst (sort_key fst k)) = mset (map fst k)" by simp
  then have ds: "distinct (map fst (sort_key fst k))"
    using assms(1) by (metis mset_eq_imp_distinct_iff)
  have xk': "x \<in> set k'" using x assms(2) by (metis mset_eq_setD set_sort)
  show "filter (\<lambda>y. fst x = fst y) (sort_key fst k) = filter (\<lambda>y. fst x = fst y) k'"
    using filter_fst_distinct [OF ds x] filter_fst_distinct [OF dk' xk'] by simp
qed

text \<open>Renaming the fields without changing their order does not change the order of the values.\<close>

lemma sorted_map_mono:
  "sorted xs \<Longrightarrow> \<forall>x\<in>set xs. \<forall>y\<in>set xs. x < y \<longrightarrow> f x < f y
     \<Longrightarrow> sorted (map f xs)"
proof (induction xs)
  case Nil
  then show ?case by simp
next
  case (Cons a xs)
  have "f a \<le> f y" if "y \<in> set xs" for y
  proof (cases "a = y")
    case True
    then show ?thesis by simp
  next
    case False
    with Cons.prems(1) that have "a < y" by auto
    with Cons.prems(2) that have "f a < f y" by simp
    then show ?thesis by simp
  qed
  moreover from Cons have "sorted (map f xs)" by simp
  ultimately show ?case by simp
qed

lemma sorted_items_rename:
  fixes f :: "string \<Rightarrow> string"
  assumes d: "distinct (map fst k)"
    and m: "\<forall>x\<in>fst ` set k. \<forall>y\<in>fst ` set k. x < y \<longrightarrow> f x < f y"
  shows "sorted_items (map (\<lambda>(n, v). (f n, v)) k) = map (\<lambda>(n, v). (f n, v)) (sorted_items k)"
  unfolding sorted_items_def
proof (rule properties_for_sort_key)
  let ?g = "\<lambda>(n, v). (f n, v)"
  let ?ys = "map ?g (sort_key fst k)"
  have fg: "map fst (map ?g zs) = map f (map fst zs)" for zs :: "(string \<times> pyval) list"
    by (induction zs) auto
  have inj: "inj_on f (fst ` set k)"
  proof (rule inj_onI)
    fix x y assume x: "x \<in> fst ` set k" and y: "y \<in> fst ` set k" and e: "f x = f y"
    show "x = y"
    proof (rule ccontr)
      assume "x \<noteq> y"
      then have "x < y \<or> y < x" by auto
      with m x y have "f x < f y \<or> f y < f x" by blast
      with e show False by simp
    qed
  qed
  show "mset ?ys = mset (map ?g k)" by simp
  have "sorted (map fst (sort_key fst k))" by simp
  moreover have "\<forall>x\<in>set (map fst (sort_key fst k)). \<forall>y\<in>set (map fst (sort_key fst k)).
                   x < y \<longrightarrow> f x < f y"
    using m by simp
  ultimately have "sorted (map f (map fst (sort_key fst k)))" by (rule sorted_map_mono)
  then show "sorted (map fst ?ys)" by (simp only: fg)
  have dk: "distinct (map fst (map ?g k))"
    unfolding fg by (rule distinct_map [THEN iffD2]) (simp add: d inj)
  have "mset (map fst (sort_key fst k)) = mset (map fst k)" by simp
  then have ds0: "distinct (map fst (sort_key fst k))"
    using d by (metis mset_eq_imp_distinct_iff)
  have ds: "distinct (map fst ?ys)"
    unfolding fg by (rule distinct_map [THEN iffD2]) (simp add: ds0 inj)
  fix x assume x: "x \<in> set ?ys"
  then have xk: "x \<in> set (map ?g k)" by simp
  show "filter (\<lambda>y. fst x = fst y) ?ys = filter (\<lambda>y. fst x = fst y) (map ?g k)"
    using filter_fst_distinct [OF ds x] filter_fst_distinct [OF dk xk] by simp
qed

lemma key_payload_rename:
  fixes f :: "string \<Rightarrow> string"
  assumes "distinct (map fst k)"
    and "\<forall>x\<in>fst ` set k. \<forall>y\<in>fst ` set k. x < y \<longrightarrow> f x < f y"
  shows "key_payload (map (\<lambda>(n, v). (f n, v)) k) = key_payload k"
proof -
  have c: "snd \<circ> (\<lambda>(n, v). (f n, v)) = (snd :: string \<times> pyval \<Rightarrow> pyval)"
    by (simp add: fun_eq_iff split_beta)
  show ?thesis
    by (simp add: key_payload_def sorted_items_rename [OF assms] c)
qed

subsection \<open>Claims about key_hash\<close>

text \<open>
  C6. The hash does not depend on the order in which the entries were inserted: if \<open>k'\<close> has
  the entries of the dictionary \<open>k\<close> in any other order, \<open>key_hash k' = key_hash k\<close>, because
  the entries are sorted on the field name before they are hashed. Said with mappings: two
  dictionaries that map the same field names to the same values have the same hash.
\<close>

theorem key_hash_order_independent:
  assumes "distinct (map fst k)"
  shows "(mset k' = mset k \<longrightarrow> key_hash k' = key_hash k)
       \<and> (distinct (map fst k') \<and> map_of k' = map_of k \<longrightarrow> key_hash k' = key_hash k)"
proof (intro conjI impI)
  assume "mset k' = mset k"
  from sorted_items_perm [OF assms this] show "key_hash k' = key_hash k"
    by (simp add: key_hash_def)
next
  assume h: "distinct (map fst k') \<and> map_of k' = map_of k"
  with assms have "set k' = set k"
    using map_of_inject_set [of k' k] by blast
  moreover from assms h have "distinct k" "distinct k'"
    by (simp_all add: distinct_map)
  ultimately have "mset k' = mset k"
    by (simp add: set_eq_iff_mset_eq_distinct)
  from sorted_items_perm [OF assms this] show "key_hash k' = key_hash k"
    by (simp add: key_hash_def)
qed

theorem key_hash_order_independent_witness:
  "distinct (map fst [(''b'', PyInt 2), (''a'', PyInt 1)])
   \<and> mset [(''a'', PyInt 1), (''b'', PyInt 2)] = mset [(''b'', PyInt 2), (''a'', PyInt 1)]
   \<and> distinct (map fst [(''a'', PyInt 1), (''b'', PyInt 2)])
   \<and> map_of [(''a'', PyInt 1), (''b'', PyInt 2)] = map_of [(''b'', PyInt 2), (''a'', PyInt 1)]
   \<and> [(''a'', PyInt 1), (''b'', PyInt 2)] \<noteq> [(''b'', PyInt 2), (''a'', PyInt 1)]
   \<and> key_hash [(''a'', PyInt 1), (''b'', PyInt 2)] = key_hash [(''b'', PyInt 2), (''a'', PyInt 1)]"
proof -
  have m: "map_of [(''a'', PyInt 1), (''b'', PyInt 2)]
             = map_of [(''b'', PyInt 2), (''a'', PyInt 1)]"
    by (simp add: fun_eq_iff)
  from key_hash_order_independent
          [of "[(''b'', PyInt 2), (''a'', PyInt 1)]" "[(''a'', PyInt 1), (''b'', PyInt 2)]"] m
  show ?thesis by simp
qed

text \<open>
  C9, as stated, fails: that two mappings have the same values under different field names
  does not make their hashes equal. \<^verbatim>\<open>{"a": 1, "c": 2}\<close> and \<^verbatim>\<open>{"d": 1, "b": 2}\<close> have the
  values 1 and 2, but sorted on the field names the first feeds \<^verbatim>\<open>12\<close> to the digest and the
  second \<^verbatim>\<open>21\<close>, and the hashes differ.
\<close>

theorem key_hash_renaming_counterexample:
  "map snd [(''a'', PyInt 1), (''c'', PyInt 2)] = map snd [(''d'', PyInt 1), (''b'', PyInt 2)]
   \<and> key_hash [(''a'', PyInt 1), (''c'', PyInt 2)] \<noteq> key_hash [(''d'', PyInt 1), (''b'', PyInt 2)]"
  by (simp add: key_hash_payload hexdigest_eq_iff key_payload_ac key_payload_db md5_digest_12_21)

text \<open>
  C9, amended. Only the values reach the digest: the hash is the digest of the encoded
  strings of the values, taken in the order of their sorted field names, and the field names
  are never fed to it. So two mappings whose values, listed in the order of their sorted
  field names, are the same list have the same hash; in particular a mapping keeps its hash
  when its fields are renamed in a way that preserves their order, as \<^verbatim>\<open>{"a": 1}\<close> and
  \<^verbatim>\<open>{"b": 1}\<close>.
\<close>

theorem key_hash_values_in_name_order:
  fixes f :: "string \<Rightarrow> string"
  shows "key_hash k = hexdigest (concat (map (\<lambda>v. encode (py_str v)) (map snd (sort_key fst k))))
   \<and> (map snd (sort_key fst k1) = map snd (sort_key fst k2) \<longrightarrow> key_hash k1 = key_hash k2)
   \<and> (distinct (map fst k)
        \<and> (\<forall>x\<in>fst ` set k. \<forall>y\<in>fst ` set k. x < y \<longrightarrow> f x < f y)
        \<longrightarrow> key_hash (map (\<lambda>(n, v). (f n, v)) k) = key_hash k)
   \<and> key_hash [(''a'', PyInt 1)] = key_hash [(''b'', PyInt 1)]"
proof (intro conjI impI)
  show "key_hash k = hexdigest (concat (map (\<lambda>v. encode (py_str v)) (map snd (sort_key fst k))))"
    by (simp add: key_hash_payload key_payload_def sorted_items_def)
next
  assume "map snd (sort_key fst k1) = map snd (sort_key fst k2)"
  then show "key_hash k1 = key_hash k2"
    by (simp add: key_hash_payload key_payload_def sorted_items_def)
next
  assume "distinct (map fst k)
        \<and> (\<forall>x\<in>fst ` set k. \<forall>y\<in>fst ` set k. x < y \<longrightarrow> f x < f y)"
  then show "key_hash (map (\<lambda>(n, v). (f n, v)) k) = key_hash k"
    by (simp add: key_hash_payload key_payload_rename)
next
  show "key_hash [(''a'', PyInt 1)] = key_hash [(''b'', PyInt 1)]"
    by (simp add: key_hash_payload key_payload_def sorted_items_def)
qed

theorem key_hash_values_in_name_order_witness:
  "map snd (sort_key fst [(''c'', PyInt 2), (''a'', PyInt 1)])
     = map snd (sort_key fst [(''b'', PyInt 1), (''d'', PyInt 2)])
   \<and> key_hash [(''c'', PyInt 2), (''a'', PyInt 1)] = key_hash [(''b'', PyInt 1), (''d'', PyInt 2)]
   \<and> distinct (map fst [(''a'', PyInt 1), (''c'', PyInt 2)])
   \<and> ''a'' < ''c'' \<and> ''xa'' < ''xc''
   \<and> key_hash [(''xa'', PyInt 1), (''xc'', PyInt 2)] = key_hash [(''a'', PyInt 1), (''c'', PyInt 2)]"
proof -
  have s: "map snd (sort_key fst [(''c'', PyInt 2), (''a'', PyInt 1)])
     = map snd (sort_key fst [(''b'', PyInt 1), (''d'', PyInt 2)])"
    by simp
  have d: "distinct (map fst [(''a'', PyInt 1), (''c'', PyInt 2)])
   \<and> (\<forall>x\<in>fst ` set [(''a'', PyInt 1), (''c'', PyInt 2)].
        \<forall>y\<in>fst ` set [(''a'', PyInt 1), (''c'', PyInt 2)].
          x < y \<longrightarrow> CHR ''x'' # x < CHR ''x'' # y)"
    by simp
  from key_hash_values_in_name_order
         [where ?k1.0 = "[(''c'', PyInt 2), (''a'', PyInt 1)]"
            and ?k2.0 = "[(''b'', PyInt 1), (''d'', PyInt 2)]"] s
  have "key_hash [(''c'', PyInt 2), (''a'', PyInt 1)] = key_hash [(''b'', PyInt 1), (''d'', PyInt 2)]"
    by blast
  moreover from key_hash_values_in_name_order
         [where k = "[(''a'', PyInt 1), (''c'', PyInt 2)]" and f = "\<lambda>n. CHR ''x'' # n"] d
  have "key_hash [(''xa'', PyInt 1), (''xc'', PyInt 2)] = key_hash [(''a'', PyInt 1), (''c'', PyInt 2)]"
    by simp
  ultimately show ?thesis using s d by simp
qed

text \<open>
  C2, as stated, fails: two dictionaries that differ as mappings can have the same hash, and
  then they have it always, not with small probability. \<^verbatim>\<open>{"a": 1}\<close> and \<^verbatim>\<open>{"b": 1}\<close> are
  different mappings with one hash.
\<close>

theorem key_hash_collision_counterexample:
  "map_of [(''a'', PyInt 1)] \<noteq> map_of [(''b'', PyInt 1)]
   \<and> key_hash [(''a'', PyInt 1)] = key_hash [(''b'', PyInt 1)]"
proof -
  have "map_of [(''a'', PyInt 1)] ''a'' \<noteq> map_of [(''b'', PyInt 1)] ''a''" by simp
  then have "map_of [(''a'', PyInt 1)] \<noteq> map_of [(''b'', PyInt 1)]" by metis
  then show ?thesis by (simp add: key_hash_def sorted_items_def)
qed

text \<open>
  C2, amended. Two keys have the same hash if and only if MD5 gives the same digest for their
  payloads, the payload of a key being the encoded strings of its values in the order of the
  sorted field names, one after the other. So keys with equal payloads have the same hash,
  also when they differ as mappings, and keys whose payloads have different digests have
  different hashes.
\<close>

theorem key_hash_eq_iff_digest:
  "(key_hash k1 = key_hash k2 \<longleftrightarrow> md5_digest (key_payload k1) = md5_digest (key_payload k2))
   \<and> (key_payload k1 = key_payload k2 \<longrightarrow> key_hash k1 = key_hash k2)
   \<and> (md5_digest (key_payload k1) \<noteq> md5_digest (key_payload k2) \<longrightarrow> key_hash k1 \<noteq> key_hash k2)"
  by (simp add: key_hash_payload hexdigest_eq_iff)

theorem key_hash_eq_iff_digest_witness:
  "key_payload [(''a'', PyInt 1), (''b'', PyInt 23)] = key_payload [(''a'', PyInt 12), (''b'', PyInt 3)]
   \<and> key_hash [(''a'', PyInt 1), (''b'', PyInt 23)] = key_hash [(''a'', PyInt 12), (''b'', PyInt 3)]
   \<and> md5_digest (key_payload [(''a'', PyInt 1), (''b'', PyInt 2)])
        \<noteq> md5_digest (key_payload [(''a'', PyInt 2), (''b'', PyInt 1)])
   \<and> key_hash [(''a'', PyInt 1), (''b'', PyInt 2)] \<noteq> key_hash [(''a'', PyInt 2), (''b'', PyInt 1)]"
proof -
  have p: "key_payload [(''a'', PyInt 1), (''b'', PyInt 23)]
             = key_payload [(''a'', PyInt 12), (''b'', PyInt 3)]"
    by (simp add: key_payload_def sorted_items_def str_int_def encode_def utf8_char_def
          digit_char_def)
  have q: "key_payload [(''a'', PyInt 1), (''b'', PyInt 2)] = [0x31, 0x32]"
    "key_payload [(''a'', PyInt 2), (''b'', PyInt 1)] = [0x32, 0x31]"
    by (simp_all add: key_payload_def sorted_items_def str_int_def encode_def utf8_char_def
          digit_char_def)
  have n: "md5_digest (key_payload [(''a'', PyInt 1), (''b'', PyInt 2)])
        \<noteq> md5_digest (key_payload [(''a'', PyInt 2), (''b'', PyInt 1)])"
    by (simp add: q md5_digest_12_21)
  from key_hash_eq_iff_digest
         [of "[(''a'', PyInt 1), (''b'', PyInt 23)]" "[(''a'', PyInt 12), (''b'', PyInt 3)]"] p
  have "key_hash [(''a'', PyInt 1), (''b'', PyInt 23)] = key_hash [(''a'', PyInt 12), (''b'', PyInt 3)]"
    by blast
  moreover from key_hash_eq_iff_digest
         [of "[(''a'', PyInt 1), (''b'', PyInt 2)]" "[(''a'', PyInt 2), (''b'', PyInt 1)]"] n
  have "key_hash [(''a'', PyInt 1), (''b'', PyInt 2)] \<noteq> key_hash [(''a'', PyInt 2), (''b'', PyInt 1)]"
    by blast
  ultimately show ?thesis using p n by blast
qed

section \<open>Properties of reserve, complete and error\<close>

lemma primary_key_reserve [simp]: "primary_key (reserve_job_key e t k) = (t, key_hash k)"
  by (simp add: primary_key_def reserve_job_key_def)

lemma primary_key_error [simp]: "primary_key (error_job e t k msg) = (t, key_hash k)"
  by (simp add: primary_key_def error_job_def)

lemma fault_workers [simp]:
  "fault worker_a = None" "fault worker_b = None" "fault worker_offline = Some Connectivity"
  "fault worker_constrained = Some ConstraintViolation"
  by (simp_all add: worker_a_def worker_b_def worker_offline_def worker_constrained_def)

text \<open>What each method does, by the state of the server and of the row.\<close>

lemma reserve_eq:
  "reserve e self t k =
     (case fault e of
        Some f \<Rightarrow> if f = ConstraintViolation then Inr (False, self)
                  else Inl (StorageUnavailable f)
      | None \<Rightarrow> if (t, key_hash k) \<in> dom self then Inr (False, self)
                else Inr (True, self((t, key_hash k) \<mapsto> reserve_job_key e t k)))"
  by (simp add: reserve_def insert1_def split: option.splits)

lemma complete_eq:
  "complete e self t k =
     (case fault e of
        Some f \<Rightarrow> Inl (StorageUnavailable f)
      | None \<Rightarrow> Inr (self((t, key_hash k) := None)))"
  by (simp add: complete_def delete_quick_def)

lemma error_eq:
  "error e self t k msg =
     (case fault e of
        Some f \<Rightarrow> Inl (StorageUnavailable f)
      | None \<Rightarrow> Inr (self((t, key_hash k) \<mapsto> error_job e t k msg)))"
  by (simp add: error_def insert1_def split: option.splits)

subsection \<open>A row stays until a complete removes it\<close>

lemma step_keeps:
  assumes "p \<in> dom self"
  shows "p \<in> dom (snd (step self c))
       \<or> (target (snd c) = p \<and> (\<exists>t k. snd c = Complete t k) \<and> fst (step self c) = Returned)"
proof (cases c)
  case (Pair e cl)
  then show ?thesis using assms
    by (cases cl) (auto simp: reserve_eq complete_eq error_eq split: option.splits)
qed

lemma held_blocks:
  assumes "p \<in> dom self"
  shows "\<not> (target (snd c) = p \<and> (\<exists>t k. snd c = Reserve t k)
            \<and> fst (step self c) = Answered True)"
proof (cases c)
  case (Pair e cl)
  then show ?thesis using assms
    by (cases cl) (auto simp: reserve_eq split: option.splits)
qed

lemma won_holds:
  assumes "target (snd c) = p" "snd c = Reserve t k" "fst (step self c) = Answered True"
  shows "p \<in> dom (snd (step self c))"
proof (cases c)
  case (Pair e cl)
  then show ?thesis using assms
    by (auto simp: reserve_eq split: option.splits if_splits)
qed

lemma reserve_won_Cons_0:
  "reserve_won p (c # cs) (r # rs) 0 \<longleftrightarrow>
     (\<exists>t k. snd c = Reserve t k \<and> target (snd c) = p) \<and> r = Answered True"
  by (cases "snd c") (auto simp: reserve_won_def)

lemma reserve_won_Cons_Suc:
  "reserve_won p (c # cs) (r # rs) (Suc i) \<longleftrightarrow> reserve_won p cs rs i"
  by (simp add: reserve_won_def)

lemma complete_done_Cons_0:
  "complete_done p (c # cs) (r # rs) 0 \<longleftrightarrow>
     (\<exists>t k. snd c = Complete t k \<and> target (snd c) = p) \<and> r = Returned"
  by (cases "snd c") (auto simp: complete_done_def)

lemma complete_done_Cons_Suc:
  "complete_done p (c # cs) (r # rs) (Suc m) \<longleftrightarrow> complete_done p cs rs m"
  by (simp add: complete_done_def)

lemma held_until_complete:
  "p \<in> dom self \<Longrightarrow> j < length cs \<Longrightarrow> reserve_won p cs (run self cs) j
     \<Longrightarrow> \<exists>m<j. complete_done p cs (run self cs) m"
proof (induction cs arbitrary: self j)
  case Nil
  then show ?case by simp
next
  case (Cons c cs)
  show ?case
  proof (cases j)
    case 0
    with Cons.prems held_blocks [of p self c] show ?thesis
      by (auto simp: reserve_won_Cons_0)
  next
    case (Suc j')
    with Cons.prems have j': "j' < length cs"
      and w: "reserve_won p cs (run (snd (step self c)) cs) j'"
      by (simp_all add: reserve_won_Cons_Suc)
    from step_keeps [OF Cons.prems(1), of c] show ?thesis
    proof
      assume "p \<in> dom (snd (step self c))"
      from Cons.IH [OF this j' w] obtain m where "m < j'"
        "complete_done p cs (run (snd (step self c)) cs) m" by blast
      then have "Suc m < j" "complete_done p (c # cs) (run self (c # cs)) (Suc m)"
        using Suc by (simp_all add: complete_done_Cons_Suc)
      then show ?thesis by blast
    next
      assume "target (snd c) = p \<and> (\<exists>t k. snd c = Complete t k)
                \<and> fst (step self c) = Returned"
      then have "complete_done p (c # cs) (run self (c # cs)) 0"
        by (auto simp: complete_done_Cons_0)
      with Suc show ?thesis by blast
    qed
  qed
qed

lemma between_two_wins:
  "i < j \<Longrightarrow> j < length cs \<Longrightarrow> reserve_won p cs (run self cs) i
     \<Longrightarrow> reserve_won p cs (run self cs) j
     \<Longrightarrow> \<exists>m. i < m \<and> m < j \<and> complete_done p cs (run self cs) m"
proof (induction cs arbitrary: self i j)
  case Nil
  then show ?case by simp
next
  case (Cons c cs)
  from Cons.prems(1) obtain j' where j: "j = Suc j'" by (cases j) simp_all
  with Cons.prems have j': "j' < length cs"
    and wj: "reserve_won p cs (run (snd (step self c)) cs) j'"
    by (simp_all add: reserve_won_Cons_Suc)
  show ?case
  proof (cases i)
    case 0
    with Cons.prems(3) obtain t k where "snd c = Reserve t k" "target (snd c) = p"
      "fst (step self c) = Answered True"
      by (auto simp: reserve_won_Cons_0)
    then have "p \<in> dom (snd (step self c))"
      using won_holds [of c p t k self] by simp
    from held_until_complete [OF this j' wj] obtain m where "m < j'"
      "complete_done p cs (run (snd (step self c)) cs) m" by blast
    then have "i < Suc m" "Suc m < j" "complete_done p (c # cs) (run self (c # cs)) (Suc m)"
      using 0 j by (simp_all add: complete_done_Cons_Suc)
    then show ?thesis by blast
  next
    case (Suc i')
    with Cons.prems j have "i' < j'" and wi: "reserve_won p cs (run (snd (step self c)) cs) i'"
      by (simp_all add: reserve_won_Cons_Suc)
    from Cons.IH [OF this(1) j' wi wj] obtain m where "i' < m" "m < j'"
      "complete_done p cs (run (snd (step self c)) cs) m" by blast
    then have "i < Suc m" "Suc m < j" "complete_done p (c # cs) (run self (c # cs)) (Suc m)"
      using Suc j by (simp_all add: complete_done_Cons_Suc)
    then show ?thesis by blast
  qed
qed

subsection \<open>Claims about the reservation protocol\<close>

text \<open>
  C1. Take a pair (work unit, key hash) for which the table has no row, and any sequence of
  \<^verbatim>\<open>reserve\<close>, \<^verbatim>\<open>complete\<close> and \<^verbatim>\<open>error\<close> calls, by any workers, on any keys. Between any two
  \<^verbatim>\<open>reserve\<close> calls for the pair that return \<^verbatim>\<open>True\<close> there is a \<^verbatim>\<open>complete\<close> for the pair
  (one that returned), so at most one \<^verbatim>\<open>reserve\<close> wins without an intervening
  \<^verbatim>\<open>complete\<close>. In particular, with the server reachable, the first \<^verbatim>\<open>reserve\<close> returns
  \<^verbatim>\<open>True\<close> and a second one right after it returns \<^verbatim>\<open>False\<close>.
\<close>

theorem reserve_mutual_exclusion:
  assumes "self (tname, key_hash k) = None"
  shows "(\<forall>i j. i < j \<and> j < length cs
              \<and> reserve_won (tname, key_hash k) cs (run self cs) i
              \<and> reserve_won (tname, key_hash k) cs (run self cs) j
            \<longrightarrow> (\<exists>m. i < m \<and> m < j \<and> complete_done (tname, key_hash k) cs (run self cs) m))
       \<and> (fault e1 = None \<and> fault e2 = None
            \<longrightarrow> (\<exists>self'. reserve e1 self tname k = Inr (True, self')
                        \<and> reserve e2 self' tname k = Inr (False, self')))"
proof (intro conjI allI impI)
  fix i j
  assume "i < j \<and> j < length cs
              \<and> reserve_won (tname, key_hash k) cs (run self cs) i
              \<and> reserve_won (tname, key_hash k) cs (run self cs) j"
  then show "\<exists>m. i < m \<and> m < j \<and> complete_done (tname, key_hash k) cs (run self cs) m"
    using between_two_wins by blast
next
  assume "fault e1 = None \<and> fault e2 = None"
  with assms show "\<exists>self'. reserve e1 self tname k = Inr (True, self')
                        \<and> reserve e2 self' tname k = Inr (False, self')"
    by (simp add: reserve_eq domIff)
qed

theorem reserve_mutual_exclusion_witness:
  "Map.empty (''T'', key_hash key_id1) = None
   \<and> run Map.empty [(worker_a, Reserve ''T'' key_id1), (worker_b, Reserve ''T'' key_id1),
                     (worker_a, Complete ''T'' key_id1), (worker_b, Reserve ''T'' key_id1)]
       = [Answered True, Answered False, Returned, Answered True]
   \<and> (\<exists>m. 0 < m \<and> m < 3 \<and>
          complete_done (''T'', key_hash key_id1)
            [(worker_a, Reserve ''T'' key_id1), (worker_b, Reserve ''T'' key_id1),
             (worker_a, Complete ''T'' key_id1), (worker_b, Reserve ''T'' key_id1)]
            [Answered True, Answered False, Returned, Answered True] m)
   \<and> (\<exists>self'. reserve worker_a Map.empty ''T'' key_id1 = Inr (True, self')
              \<and> reserve worker_b self' ''T'' key_id1 = Inr (False, self'))"
proof -
  let ?cs = "[(worker_a, Reserve ''T'' key_id1), (worker_b, Reserve ''T'' key_id1),
              (worker_a, Complete ''T'' key_id1), (worker_b, Reserve ''T'' key_id1)]"
  let ?p = "(''T'', key_hash key_id1)"
  have r: "run Map.empty ?cs = [Answered True, Answered False, Returned, Answered True]"
    by (simp add: reserve_eq complete_eq)
  have w: "reserve_won ?p ?cs (run Map.empty ?cs) 0" "reserve_won ?p ?cs (run Map.empty ?cs) 3"
    unfolding r by (simp_all add: reserve_won_def)
  from reserve_mutual_exclusion [of Map.empty "''T''" key_id1 ?cs worker_a worker_b] w r
  show ?thesis by simp
qed




text \<open>
  C4. After a \<^verbatim>\<open>reserve\<close> that returned \<^verbatim>\<open>True\<close>, an \<^verbatim>\<open>error\<close> call for the same work unit
  and key leaves a row for the pair with status \<^verbatim>\<open>error\<close> and the given message, and a
  \<^verbatim>\<open>reserve\<close> after it returns \<^verbatim>\<open>False\<close>: the error row still blocks the job.
\<close>

theorem error_keeps_blocking:
  assumes "reserve e1 self tname k = Inr (True, self1)"
    and "fault e2 = None" and "fault e3 = None"
  shows "\<exists>self2 row. error e2 self1 tname k message = Inr self2
           \<and> self2 (tname, key_hash k) = Some row
           \<and> status row = Error \<and> error_message row = message
           \<and> reserve e3 self2 tname k = Inr (False, self2)"
  using assms by (simp add: error_eq reserve_eq error_job_def)

theorem error_keeps_blocking_witness:
  "reserve worker_a Map.empty ''T'' key_id1
      = Inr (True, [(''T'', key_hash key_id1) \<mapsto> reserve_job_key worker_a ''T'' key_id1])
   \<and> fault worker_a = None \<and> fault worker_b = None
   \<and> (\<exists>self2 row.
          error worker_a [(''T'', key_hash key_id1) \<mapsto> reserve_job_key worker_a ''T'' key_id1]
            ''T'' key_id1 ''boom'' = Inr self2
           \<and> self2 (''T'', key_hash key_id1) = Some row
           \<and> status row = Error \<and> error_message row = ''boom''
           \<and> reserve worker_b self2 ''T'' key_id1 = Inr (False, self2))"
proof -
  have r: "reserve worker_a Map.empty ''T'' key_id1
      = Inr (True, [(''T'', key_hash key_id1) \<mapsto> reserve_job_key worker_a ''T'' key_id1])"
    by (simp add: reserve_eq)
  have f: "fault worker_a = None" "fault worker_b = None" by simp_all
  from error_keeps_blocking [OF r f, of "''boom''"] r f show ?thesis by simp
qed

text \<open>
  C5, as stated, fails: \<^verbatim>\<open>error\<close> has the parameters \<^verbatim>\<open>table_name\<close>, \<^verbatim>\<open>key\<close> and
  \<^verbatim>\<open>error_message\<close> only, and the row it writes carries neither a copy of the key nor an
  error stack. After \<^verbatim>\<open>error("T", {id: 1}, "boom")\<close> on an empty table both columns are null.
\<close>

theorem error_record_counterexample:
  "error worker_a Map.empty ''T'' key_id1 ''boom''
     = Inr [(''T'', key_hash key_id1) \<mapsto>
             \<lparr>table_name = ''T'', key_hash_col = key_hash key_id1, status = Error, key = None,
              error_message = ''boom'', error_stack = None, host = ''alpha'', pid = 4711,
              timestamp = 100\<rparr>]
   \<and> key (error_job worker_a ''T'' key_id1 ''boom'') = None
   \<and> error_stack (error_job worker_a ''T'' key_id1 ''boom'') = None"
  by (simp add: error_eq error_job_def worker_a_def)

text \<open>
  C5, amended. \<^verbatim>\<open>error(table_name, key, error_message)\<close> has no \<^verbatim>\<open>error_stack\<close> argument.
  With the server reachable it inserts, or puts in the place of the row with the same
  (work unit, key hash), a row with status \<^verbatim>\<open>error\<close>, the given message, the host and the
  process id of the caller, and the columns \<^verbatim>\<open>key\<close> and \<^verbatim>\<open>error_stack\<close> null; no other
  row changes. A failure of the server is raised as it is.
\<close>

theorem error_inserts_or_replaces:
  "(fault e = None \<longrightarrow>
      error e self tname k message
        = Inr (self((tname, key_hash k) \<mapsto>
                 \<lparr>table_name = tname, key_hash_col = key_hash k, status = Error, key = None,
                  error_message = message, error_stack = None, host = nodename e,
                  pid = getpid e, timestamp = current_timestamp e\<rparr>)))
   \<and> (\<forall>f. fault e = Some f \<longrightarrow> error e self tname k message = Inl (StorageUnavailable f))"
  by (simp add: error_eq error_job_def)

theorem error_inserts_or_replaces_witness:
  "fault worker_b = None
   \<and> error worker_b [(''T'', key_hash key_id1) \<mapsto> reserve_job_key worker_a ''T'' key_id1]
        ''T'' key_id1 ''boom''
      = Inr [(''T'', key_hash key_id1) \<mapsto>
              \<lparr>table_name = ''T'', key_hash_col = key_hash key_id1, status = Error, key = None,
               error_message = ''boom'', error_stack = None, host = ''beta'', pid = 17,
               timestamp = 105\<rparr>]
   \<and> fault worker_offline = Some Connectivity
   \<and> error worker_offline Map.empty ''T'' key_id1 ''boom''
      = Inl (StorageUnavailable Connectivity)"
proof -
  let ?held = "[(''T'', key_hash key_id1) \<mapsto> reserve_job_key worker_a ''T'' key_id1]"
  have f: "fault worker_b = None" "fault worker_offline = Some Connectivity" by simp_all
  from error_inserts_or_replaces [of worker_b ?held "''T''" key_id1 "''boom''"] f
  have "error worker_b ?held ''T'' key_id1 ''boom''
      = Inr [(''T'', key_hash key_id1) \<mapsto>
              \<lparr>table_name = ''T'', key_hash_col = key_hash key_id1, status = Error, key = None,
               error_message = ''boom'', error_stack = None, host = ''beta'', pid = 17,
               timestamp = 105\<rparr>]"
    by (simp add: worker_b_def)
  moreover from error_inserts_or_replaces [of worker_offline Map.empty "''T''" key_id1 "''boom''"] f
  have "error worker_offline Map.empty ''T'' key_id1 ''boom''
      = Inl (StorageUnavailable Connectivity)"
    by simp
  ultimately show ?thesis using f by simp
qed

text \<open>
  C7. After a \<^verbatim>\<open>reserve\<close> that returned \<^verbatim>\<open>True\<close>, \<^verbatim>\<open>complete\<close> for the same work unit and
  key deletes the row, and the next \<^verbatim>\<open>reserve\<close> for them returns \<^verbatim>\<open>True\<close> again.
\<close>

theorem complete_frees_slot:
  assumes "reserve e1 self tname k = Inr (True, self1)"
    and "fault e2 = None" and "fault e3 = None"
  shows "\<exists>self2 self3. complete e2 self1 tname k = Inr self2
           \<and> self2 (tname, key_hash k) = None
           \<and> reserve e3 self2 tname k = Inr (True, self3)"
  using assms by (simp add: complete_eq reserve_eq)

theorem complete_frees_slot_witness:
  "reserve worker_a Map.empty ''T'' key_id1
      = Inr (True, [(''T'', key_hash key_id1) \<mapsto> reserve_job_key worker_a ''T'' key_id1])
   \<and> fault worker_a = None \<and> fault worker_b = None
   \<and> (\<exists>self2 self3.
          complete worker_a [(''T'', key_hash key_id1) \<mapsto> reserve_job_key worker_a ''T'' key_id1]
            ''T'' key_id1 = Inr self2
           \<and> self2 (''T'', key_hash key_id1) = None
           \<and> reserve worker_b self2 ''T'' key_id1 = Inr (True, self3))"
proof -
  have r: "reserve worker_a Map.empty ''T'' key_id1
      = Inr (True, [(''T'', key_hash key_id1) \<mapsto> reserve_job_key worker_a ''T'' key_id1])"
    by (simp add: reserve_eq)
  have f: "fault worker_a = None" "fault worker_b = None" by simp_all
  from complete_frees_slot [OF r f] r f show ?thesis by simp
qed

text \<open>
  C8. With the server reachable, \<^verbatim>\<open>complete\<close> raises nothing in any state of the table: it
  deletes the row of the pair if there is one and touches no other row; when there is no
  such row the table is unchanged; and a second \<^verbatim>\<open>complete\<close> changes nothing more.
\<close>

theorem complete_idempotent:
  assumes "fault e = None"
  shows "complete e self tname k = Inr (self((tname, key_hash k) := None))
       \<and> (self (tname, key_hash k) = None \<longrightarrow> complete e self tname k = Inr self)
       \<and> (\<forall>p. p \<noteq> (tname, key_hash k) \<longrightarrow> (self((tname, key_hash k) := None)) p = self p)
       \<and> complete e (self((tname, key_hash k) := None)) tname k
           = Inr (self((tname, key_hash k) := None))"
  using assms by (auto simp: complete_eq)

theorem complete_idempotent_witness:
  "fault worker_a = None
   \<and> Map.empty (''T'', key_hash key_id1) = None
   \<and> complete worker_a Map.empty ''T'' key_id1 = Inr Map.empty
   \<and> complete worker_a [(''T'', key_hash key_id1) \<mapsto> reserve_job_key worker_b ''T'' key_id1]
        ''T'' key_id1 = Inr Map.empty"
proof -
  let ?held = "[(''T'', key_hash key_id1) \<mapsto> reserve_job_key worker_b ''T'' key_id1]"
  have f: "fault worker_a = None" by simp
  from complete_idempotent [OF f, of Map.empty "''T''" key_id1]
  have "complete worker_a Map.empty ''T'' key_id1 = Inr Map.empty" by simp
  moreover from complete_idempotent [OF f, of ?held "''T''" key_id1]
  have "complete worker_a ?held ''T'' key_id1 = Inr Map.empty" by simp
  ultimately show ?thesis using f by simp
qed

section \<open>Properties of JobManager\<close>

text \<open>A request either finds the database in the cache, or fails to build the store, or builds it.\<close>

lemma getitem_eq:
  "getitem flt (self, w) db =
     (case jobs self db of
        Some ref \<Rightarrow> Inr (ref, self, w)
      | None \<Rightarrow>
          (case flt of
             Some f \<Rightarrow> Inl (StorageUnavailable f)
           | None \<Rightarrow>
               Inr (length (objects w),
                    self\<lparr>jobs := (jobs self)(db \<mapsto> length (objects w))\<rparr>,
                    w\<lparr>objects := objects w @ [\<lparr>database = Some db, relation_connection = connection self\<rparr>],
                      declared := insert (Some db) (declared w)\<rparr>)))"
  by (auto simp: getitem_def JobRelation_init_def domIff insert_absorb split: option.splits)

lemma request_hit:
  "jobs self db = Some ref \<Longrightarrow> request (self, w) (flt, db) = (Inr ref, (self, w))"
  by (simp add: getitem_eq)

lemma request_fail:
  "jobs self db = None \<Longrightarrow> request (self, w) (Some f, db) = (Inl (StorageUnavailable f), (self, w))"
  by (simp add: getitem_eq)

lemma request_miss:
  "jobs self db = None \<Longrightarrow>
   request (self, w) (None, db) =
     (Inr (length (objects w)),
      (self\<lparr>jobs := (jobs self)(db \<mapsto> length (objects w))\<rparr>,
       w\<lparr>objects := objects w @ [\<lparr>database = Some db, relation_connection = connection self\<rparr>],
         declared := insert (Some db) (declared w)\<rparr>))"
  by (simp add: getitem_eq)

lemma request_cases:
  obtains (hit) ref where "jobs (fst st) (snd r) = Some ref" "request st r = (Inr ref, st)"
  | (fail) f where "jobs (fst st) (snd r) = None" "fst r = Some f"
      "request st r = (Inl (StorageUnavailable f), st)"
  | (miss) "jobs (fst st) (snd r) = None" "fst r = None"
      "request st r =
         (Inr (length (objects (snd st))),
          ((fst st)\<lparr>jobs := (jobs (fst st))(snd r \<mapsto> length (objects (snd st)))\<rparr>,
           (snd st)\<lparr>objects := objects (snd st) @
                       [\<lparr>database = Some (snd r), relation_connection = connection (fst st)\<rparr>],
                     declared := insert (Some (snd r)) (declared (snd st))\<rparr>))"
proof (cases st, cases r)
  fix self w flt db
  assume st: "st = (self, w)" and r: "r = (flt, db)"
  show thesis
  proof (cases "jobs self db")
    case (Some ref)
    with st r hit [of ref] request_hit [of self db ref w flt] show ?thesis by simp
  next
    case None
    show ?thesis
    proof (cases flt)
      case (Some f)
      with None st r fail [of f] request_fail [of self db w f] show ?thesis by simp
    next
      case None' : None
      with None st r miss request_miss [of self db w] show ?thesis by simp
    qed
  qed
qed

lemma request_consistent:
  assumes "cache_consistent st"
  shows "cache_consistent (snd (request st r))"
proof (cases rule: request_cases [of st r])
  case (hit ref)
  with assms show ?thesis by simp
next
  case (fail f)
  with assms show ?thesis by simp
next
  case miss
  with assms show ?thesis
    by (auto simp: cache_consistent_def nth_append less_Suc_eq)
qed

lemma request_connection: "connection (fst (snd (request st r))) = connection (fst st)"
  by (cases rule: request_cases [of st r]) simp_all

lemma request_keeps:
  "jobs (fst st) db = Some ref \<Longrightarrow> jobs (fst (snd (request st r))) db = Some ref"
  by (cases rule: request_cases [of st r]) auto

lemma request_caches:
  "fst (request st r) = Inr ref \<Longrightarrow> jobs (fst (snd (request st r))) (snd r) = Some ref"
  by (cases rule: request_cases [of st r]) auto

lemma request_no_key_error: "fst (request st r) \<noteq> Inl KeyError"
  by (cases rule: request_cases [of st r]) auto

lemma request_returns: "fst r = None \<Longrightarrow> \<exists>ref. fst (request st r) = Inr ref"
  by (cases rule: request_cases [of st r]) auto

lemma requests_Cons:
  "requests st (r # rs) =
     (fst (request st r) # fst (requests (snd (request st r)) rs),
      snd (requests (snd (request st r)) rs))"
  by (simp add: split_beta)

lemma requests_length: "length (fst (requests st rs)) = length rs"
  by (induction rs arbitrary: st) (simp_all add: split_beta)

lemma requests_consistent:
  "cache_consistent st \<Longrightarrow> cache_consistent (snd (requests st rs))"
  by (induction rs arbitrary: st) (simp_all add: split_beta request_consistent)

lemma requests_connection: "connection (fst (snd (requests st rs))) = connection (fst st)"
  by (induction rs arbitrary: st) (simp_all add: split_beta request_connection)

lemma requests_keeps:
  "jobs (fst st) db = Some ref \<Longrightarrow> jobs (fst (snd (requests st rs))) db = Some ref"
  by (induction rs arbitrary: st) (simp_all add: split_beta request_keeps)

lemma requests_caches:
  "i < length rs \<Longrightarrow> fst (requests st rs) ! i = Inr ref
     \<Longrightarrow> jobs (fst (snd (requests st rs))) (snd (rs ! i)) = Some ref"
proof (induction rs arbitrary: st i)
  case Nil
  then show ?case by simp
next
  case (Cons r rs)
  show ?case
  proof (cases i)
    case 0
    with Cons.prems have "fst (request st r) = Inr ref" by (simp add: split_beta)
    then have "jobs (fst (snd (request st r))) (snd r) = Some ref" by (rule request_caches)
    then have "jobs (fst (snd (requests (snd (request st r)) rs))) (snd r) = Some ref"
      by (rule requests_keeps)
    with 0 show ?thesis by (simp add: split_beta)
  next
    case (Suc i')
    with Cons.prems have "i' < length rs" "fst (requests (snd (request st r)) rs) ! i' = Inr ref"
      by (simp_all add: split_beta)
    from Cons.IH [OF this] Suc show ?thesis by (simp add: split_beta)
  qed
qed

lemma requests_no_key_error:
  "i < length rs \<Longrightarrow> fst (requests st rs) ! i \<noteq> Inl KeyError"
proof (induction rs arbitrary: st i)
  case Nil
  then show ?case by simp
next
  case (Cons r rs)
  then show ?case
    by (cases i) (simp_all add: split_beta request_no_key_error)
qed

lemma requests_returns:
  "i < length rs \<Longrightarrow> fst (rs ! i) = None \<Longrightarrow> \<exists>ref. fst (requests st rs) ! i = Inr ref"
proof (induction rs arbitrary: st i)
  case Nil
  then show ?case by simp
next
  case (Cons r rs)
  then show ?case
    by (cases i) (simp_all add: split_beta request_returns)
qed


lemma request_grows:
  "\<exists>ys. objects (snd (snd (request st r))) = objects (snd st) @ ys
        \<and> (\<forall>db. length (filter (\<lambda>obj. database obj = Some db) ys)
               = (if jobs (fst st) db = None \<and> jobs (fst (snd (request st r))) db \<noteq> None
                  then 1 else 0))"
  by (cases rule: request_cases [of st r]) auto

lemma requests_grows:
  "\<exists>ys. objects (snd (snd (requests st rs))) = objects (snd st) @ ys
        \<and> (\<forall>db. length (filter (\<lambda>obj. database obj = Some db) ys)
               = (if jobs (fst st) db = None \<and> jobs (fst (snd (requests st rs))) db \<noteq> None
                  then 1 else 0))"
proof (induction rs arbitrary: st)
  case Nil
  show ?case by auto
next
  case (Cons r rs)
  let ?st1 = "snd (request st r)"
  let ?st2 = "snd (requests ?st1 rs)"
  from request_grows [of st r] obtain ys1 where
    o1: "objects (snd ?st1) = objects (snd st) @ ys1" and
    c1: "\<And>db. length (filter (\<lambda>obj. database obj = Some db) ys1)
               = (if jobs (fst st) db = None \<and> jobs (fst ?st1) db \<noteq> None then 1 else 0)"
    by blast
  from Cons.IH [of ?st1] obtain ys2 where
    o2: "objects (snd ?st2) = objects (snd ?st1) @ ys2" and
    c2: "\<And>db. length (filter (\<lambda>obj. database obj = Some db) ys2)
               = (if jobs (fst ?st1) db = None \<and> jobs (fst ?st2) db \<noteq> None then 1 else 0)"
    by blast
  have k1: "\<And>db. jobs (fst st) db \<noteq> None \<Longrightarrow> jobs (fst ?st1) db \<noteq> None"
    using request_keeps [of st _ _ r] by auto
  have k2: "\<And>db. jobs (fst ?st1) db \<noteq> None \<Longrightarrow> jobs (fst ?st2) db \<noteq> None"
    using requests_keeps [of ?st1 _ _ rs] by auto
  have "objects (snd ?st2) = objects (snd st) @ (ys1 @ ys2)"
    using o1 o2 by simp
  moreover have "\<forall>db. length (filter (\<lambda>obj. database obj = Some db) (ys1 @ ys2))
               = (if jobs (fst st) db = None \<and> jobs (fst ?st2) db \<noteq> None then 1 else 0)"
  proof
    fix db
    show "length (filter (\<lambda>obj. database obj = Some db) (ys1 @ ys2))
               = (if jobs (fst st) db = None \<and> jobs (fst ?st2) db \<noteq> None then 1 else 0)"
      using c1 [of db] c2 [of db] k1 [of db] k2 [of db] by (auto split: if_splits)
  qed
  ultimately show ?case
    unfolding requests_Cons snd_conv by blast
qed

lemma requests_constructed:
  "length (filter (\<lambda>obj. database obj = Some db) (constructed (snd st) (snd (snd (requests st rs)))))
     = (if jobs (fst st) db = None \<and> jobs (fst (snd (requests st rs))) db \<noteq> None then 1 else 0)"
proof -
  from requests_grows [of st rs] obtain ys where
    "objects (snd (snd (requests st rs))) = objects (snd st) @ ys"
    "\<forall>db. length (filter (\<lambda>obj. database obj = Some db) ys)
               = (if jobs (fst st) db = None \<and> jobs (fst (snd (requests st rs))) db \<noteq> None
                  then 1 else 0)"
    by blast
  then show ?thesis by (simp add: constructed_def)
qed

lemma request_origin:
  "jobs (fst (snd (request st r))) db = Some ref
     \<Longrightarrow> jobs (fst st) db = Some ref \<or> (snd r = db \<and> fst (request st r) = Inr ref)"
  by (cases rule: request_cases [of st r]) (auto split: if_splits)

lemma requests_origin:
  "jobs (fst (snd (requests st rs))) db = Some ref
     \<Longrightarrow> jobs (fst st) db = Some ref
         \<or> (\<exists>i<length rs. snd (rs ! i) = db \<and> fst (requests st rs) ! i = Inr ref)"
proof (induction rs arbitrary: st)
  case Nil
  then show ?case by simp
next
  case (Cons r rs)
  let ?st1 = "snd (request st r)"
  from Cons.prems have "jobs (fst (snd (requests ?st1 rs))) db = Some ref"
    by (simp add: split_beta)
  from Cons.IH [OF this] show ?case
  proof
    assume "jobs (fst ?st1) db = Some ref"
    from request_origin [OF this] show ?thesis
    proof
      assume "jobs (fst st) db = Some ref"
      then show ?thesis by simp
    next
      assume "snd r = db \<and> fst (request st r) = Inr ref"
      then have "0 < length (r # rs) \<and> snd ((r # rs) ! 0) = db
                 \<and> fst (requests st (r # rs)) ! 0 = Inr ref"
        by (simp add: split_beta)
      then show ?thesis by blast
    qed
  next
    assume "\<exists>i<length rs. snd (rs ! i) = db \<and> fst (requests ?st1 rs) ! i = Inr ref"
    then obtain i where "i < length rs" "snd (rs ! i) = db"
      "fst (requests ?st1 rs) ! i = Inr ref" by blast
    then have "Suc i < length (r # rs) \<and> snd ((r # rs) ! Suc i) = db
                 \<and> fst (requests st (r # rs)) ! Suc i = Inr ref"
      by (simp add: split_beta)
    then show ?thesis by blast
  qed
qed

lemma request_fresh:
  assumes "\<forall>db ref. jobs (fst st) db = Some ref \<longrightarrow> n \<le> ref" "n \<le> length (objects (snd st))"
  shows "(\<forall>db ref. jobs (fst (snd (request st r))) db = Some ref \<longrightarrow> n \<le> ref)
       \<and> n \<le> length (objects (snd (snd (request st r))))"
  using assms by (cases rule: request_cases [of st r]) auto

lemma requests_fresh:
  "\<forall>db ref. jobs (fst st) db = Some ref \<longrightarrow> n \<le> ref \<Longrightarrow> n \<le> length (objects (snd st))
     \<Longrightarrow> \<forall>db ref. jobs (fst (snd (requests st rs))) db = Some ref \<longrightarrow> n \<le> ref"
proof (induction rs arbitrary: st)
  case Nil
  then show ?case by simp
next
  case (Cons r rs)
  from request_fresh [OF Cons.prems, of r]
  have "\<forall>db ref. jobs (fst (snd (request st r))) db = Some ref \<longrightarrow> n \<le> ref"
    and "n \<le> length (objects (snd (snd (request st r))))" by blast+
  from Cons.IH [OF this] show ?case by (simp add: split_beta)
qed

lemma init_consistent: "cache_consistent (JobManager_init c, w)"
  by (simp add: cache_consistent_def JobManager_init_def)

subsection \<open>Claim about the registry\<close>

text \<open>
  C10. A manager starts with an empty cache. In any sequence of requests, two requests for
  the same database that return give the same object (the same address); what a request
  returns is a \<^verbatim>\<open>JobRelation\<close> for the requested database on the manager's connection,
  constructed by the manager, which stays in the cache; a request returns whenever the server is reachable; and for every
  database exactly one object is constructed if some request for it returned, none
  otherwise.
\<close>

theorem manager_caches_store:
  assumes "requests (JobManager_init c, w) rs = (xs, self', w')"
  shows "(\<forall>i j a b. i < length rs \<and> j < length rs \<and> snd (rs ! i) = snd (rs ! j)
                      \<and> xs ! i = Inr a \<and> xs ! j = Inr b \<longrightarrow> a = b)
       \<and> (\<forall>i a. i < length rs \<and> xs ! i = Inr a \<longrightarrow>
             length (objects w) \<le> a \<and> a < length (objects w') \<and>
             objects w' ! a = \<lparr>database = Some (snd (rs ! i)), relation_connection = c\<rparr> \<and>
             jobs self' (snd (rs ! i)) = Some a)
       \<and> (\<forall>i. i < length rs \<and> fst (rs ! i) = None \<longrightarrow> (\<exists>a. xs ! i = Inr a))
       \<and> (\<forall>db. length (filter (\<lambda>obj. database obj = Some db) (constructed w w'))
                  = (if \<exists>i<length rs. snd (rs ! i) = db \<and> (\<exists>a. xs ! i = Inr a) then 1 else 0))"
proof -
  let ?st = "(JobManager_init c, w)"
  from assms have xs: "xs = fst (requests ?st rs)" and self': "self' = fst (snd (requests ?st rs))"
    and w': "w' = snd (snd (requests ?st rs))" by simp_all
  have cached: "\<And>i a. i < length rs \<Longrightarrow> xs ! i = Inr a \<Longrightarrow> jobs self' (snd (rs ! i)) = Some a"
    unfolding xs self' by (rule requests_caches)
  have cons: "cache_consistent (self', w')"
    using requests_consistent [OF init_consistent, of c w rs] self' w' by simp
  have conn: "connection self' = c"
    using requests_connection [of ?st rs] self' by (simp add: JobManager_init_def)
  have same: "\<forall>i j a b. i < length rs \<and> j < length rs \<and> snd (rs ! i) = snd (rs ! j)
                      \<and> xs ! i = Inr a \<and> xs ! j = Inr b \<longrightarrow> a = b"
  proof (intro allI impI)
    fix i j a b
    assume h: "i < length rs \<and> j < length rs \<and> snd (rs ! i) = snd (rs ! j)
                      \<and> xs ! i = Inr a \<and> xs ! j = Inr b"
    then have "jobs self' (snd (rs ! i)) = Some a" "jobs self' (snd (rs ! j)) = Some b"
      using cached by blast+
    with h show "a = b" by simp
  qed
  have fresh: "\<forall>db ref. jobs self' db = Some ref \<longrightarrow> length (objects w) \<le> ref"
    unfolding self' by (rule requests_fresh) (simp_all add: JobManager_init_def)
  have store: "\<forall>i a. i < length rs \<and> xs ! i = Inr a \<longrightarrow>
             length (objects w) \<le> a \<and> a < length (objects w') \<and>
             objects w' ! a = \<lparr>database = Some (snd (rs ! i)), relation_connection = c\<rparr> \<and>
             jobs self' (snd (rs ! i)) = Some a"
  proof (intro allI impI)
    fix i a
    assume "i < length rs \<and> xs ! i = Inr a"
    then have "jobs self' (snd (rs ! i)) = Some a" using cached by blast
    with cons conn fresh show "length (objects w) \<le> a \<and> a < length (objects w') \<and>
             objects w' ! a = \<lparr>database = Some (snd (rs ! i)), relation_connection = c\<rparr> \<and>
             jobs self' (snd (rs ! i)) = Some a"
      by (simp add: cache_consistent_def)
  qed
  have ret: "\<forall>i. i < length rs \<and> fst (rs ! i) = None \<longrightarrow> (\<exists>a. xs ! i = Inr a)"
    unfolding xs using requests_returns by blast
  have once: "\<forall>db. length (filter (\<lambda>obj. database obj = Some db) (constructed w w'))
                  = (if \<exists>i<length rs. snd (rs ! i) = db \<and> (\<exists>a. xs ! i = Inr a) then 1 else 0)"
  proof
    fix db
    have "jobs self' db \<noteq> None \<longleftrightarrow> (\<exists>i<length rs. snd (rs ! i) = db \<and> (\<exists>a. xs ! i = Inr a))"
    proof
      assume "jobs self' db \<noteq> None"
      then obtain ref where "jobs self' db = Some ref" by blast
      from requests_origin [of ?st rs db ref] this self' xs
      show "\<exists>i<length rs. snd (rs ! i) = db \<and> (\<exists>a. xs ! i = Inr a)"
        by (auto simp: JobManager_init_def)
    next
      assume "\<exists>i<length rs. snd (rs ! i) = db \<and> (\<exists>a. xs ! i = Inr a)"
      then show "jobs self' db \<noteq> None" using cached by force
    qed
    with requests_constructed [of db ?st rs] self' w'
    show "length (filter (\<lambda>obj. database obj = Some db) (constructed w w'))
                  = (if \<exists>i<length rs. snd (rs ! i) = db \<and> (\<exists>a. xs ! i = Inr a) then 1 else 0)"
      by (simp add: JobManager_init_def)
  qed
  from same store ret once show ?thesis by blast
qed

theorem manager_caches_store_witness:
  "requests (JobManager_init 7, fresh_world)
     [(None, ''lab''), (Some Connectivity, ''zoo''), (None, ''lab''), (None, ''zoo'')]
   = ([Inr 0, Inl (StorageUnavailable Connectivity), Inr 0, Inr 1],
      \<lparr>connection = 7, jobs = [''lab'' \<mapsto> 0, ''zoo'' \<mapsto> 1]\<rparr>,
      \<lparr>objects = [\<lparr>database = Some ''lab'', relation_connection = 7\<rparr>,
                  \<lparr>database = Some ''zoo'', relation_connection = 7\<rparr>],
       declared = {Some ''zoo'', Some ''lab''}\<rparr>)
   \<and> length (filter (\<lambda>obj. database obj = Some ''lab'')
        (constructed fresh_world
           \<lparr>objects = [\<lparr>database = Some ''lab'', relation_connection = 7\<rparr>,
                       \<lparr>database = Some ''zoo'', relation_connection = 7\<rparr>],
            declared = {Some ''zoo'', Some ''lab''}\<rparr>)) = 1"
proof -
  let ?rs = "[(None, ''lab''), (Some Connectivity, ''zoo''), (None, ''lab''), (None, ''zoo'')]"
  let ?xs = "[Inr 0, Inl (StorageUnavailable Connectivity), Inr 0, Inr (1::nat)]"
  let ?w = "\<lparr>objects = [\<lparr>database = Some ''lab'', relation_connection = 7::nat\<rparr>,
                        \<lparr>database = Some ''zoo'', relation_connection = 7\<rparr>],
             declared = {Some ''zoo'', Some ''lab''}\<rparr>"
  have r: "requests (JobManager_init 7, fresh_world) ?rs
             = (?xs, \<lparr>connection = 7, jobs = [''lab'' \<mapsto> 0, ''zoo'' \<mapsto> 1]\<rparr>, ?w)"
    by (simp add: getitem_eq JobManager_init_def fresh_world_def)
  have h: "\<exists>i<length ?rs. snd (?rs ! i) = ''lab'' \<and> (\<exists>a. ?xs ! i = Inr a)"
    by (rule exI [of _ 0]) simp
  from manager_caches_store [OF r, THEN conjunct2, THEN conjunct2, THEN conjunct2, THEN spec,
         of "''lab''"] h
  have "length (filter (\<lambda>obj. database obj = Some ''lab'') (constructed fresh_world ?w)) = 1"
    by simp
  with r show ?thesis by simp
qed

end
